theory Spec2Isabelle
  imports Complex_Main
begin

section \<open>Python values used by both modules\<close>

text \<open>
  Exceptions are values.  \<open>ValueError v\<close> is the error of \<open>AgentRole(v)\<close> for a string
  \<open>v\<close> that is no role value, or of \<open>list.remove\<close> when nothing matches;
  \<open>KeyError k\<close> is the error of \<open>d[k]\<close> for a missing key; \<open>OSError m\<close> stands for
  every failure reported by the operating system, with its message;
  \<open>UnicodeEncodeError m\<close> is the error of encoding a text that holds a lone surrogate.
\<close>

datatype py_exception =
  ValueError string | KeyError string | OSError string | UnicodeEncodeError string

text \<open>\<open>str(e)\<close>: the message; for a \<open>KeyError\<close> the \<open>repr\<close> of the key.\<close>

fun exc_str :: "py_exception \<Rightarrow> string" where
  "exc_str (ValueError v) = v"
| "exc_str (KeyError k) = [CHR 0x27] @ k @ [CHR 0x27]"
| "exc_str (OSError m) = m"
| "exc_str (UnicodeEncodeError m) = m"

text \<open>\<open>str(n)\<close> of a non-negative integer: its decimal digits.\<close>

definition digit_char :: "nat \<Rightarrow> char" where
  "digit_char d = char_of (48 + d)"

fun str_nat :: "nat \<Rightarrow> string" where
  "str_nat n = (if n < 10 then [digit_char n] else str_nat (n div 10) @ [digit_char (n mod 10)])"

declare str_nat.simps [simp del]

definition str_int :: "int \<Rightarrow> string" where
  "str_int i = (if i < 0 then CHR ''-'' # str_nat (nat (- i)) else str_nat (nat i))"

section \<open>agent\_orchestrator.py: the data model\<close>

datatype AgentRole = COORDINATOR | RESEARCHER | ANALYST | EXECUTOR | VALIDATOR

fun AgentRole_value :: "AgentRole \<Rightarrow> string" where
  "AgentRole_value COORDINATOR = ''coordinator''"
| "AgentRole_value RESEARCHER = ''researcher''"
| "AgentRole_value ANALYST = ''analyst''"
| "AgentRole_value EXECUTOR = ''executor''"
| "AgentRole_value VALIDATOR = ''validator''"

text \<open>\<open>AgentRole(v)\<close>: the member whose value is \<open>v\<close>, or a \<open>ValueError\<close>.\<close>

definition AgentRole_of :: "string \<Rightarrow> py_exception + AgentRole" where
  "AgentRole_of v =
     (if v = ''coordinator'' then Inr COORDINATOR
      else if v = ''researcher'' then Inr RESEARCHER
      else if v = ''analyst'' then Inr ANALYST
      else if v = ''executor'' then Inr EXECUTOR
      else if v = ''validator'' then Inr VALIDATOR
      else Inl (ValueError v))"

datatype TaskStatus = PENDING | IN_PROGRESS | COMPLETED | FAILED | CANCELLED

fun TaskStatus_value :: "TaskStatus \<Rightarrow> string" where
  "TaskStatus_value PENDING = ''pending''"
| "TaskStatus_value IN_PROGRESS = ''in_progress''"
| "TaskStatus_value COMPLETED = ''completed''"
| "TaskStatus_value FAILED = ''failed''"
| "TaskStatus_value CANCELLED = ''cancelled''"

text \<open>
  \<open>datetime.now()\<close> reads a logical clock that ticks at every read.  A task result
  (\<open>Any\<close> in the source) is a dictionary from strings to strings, as the one the
  source's \<open>_execute_single_task\<close> returns.
\<close>

type_synonym datetime = nat
type_synonym payload = "(string \<times> string) list"

record AgentTask =
  task_id :: string
  role :: AgentRole
  description :: string
  dependencies :: "string list"
  status :: TaskStatus
  result :: "payload option"
  error :: "string option"
  created_at :: datetime
  started_at :: "datetime option"
  completed_at :: "datetime option"

text \<open>
  A subtask specification is a dictionary; each of the three keys the code reads may be
  absent (\<open>None\<close>).
\<close>

record subtask =
  st_role :: "string option"
  st_description :: "string option"
  st_dependencies :: "string list option"

section \<open>\_create\_task\_graph\<close>

text \<open>\<open>d.get(k, default)\<close>.\<close>

definition dict_get :: "'a option \<Rightarrow> 'a \<Rightarrow> 'a" where
  "dict_get v d = (case v of None \<Rightarrow> d | Some x \<Rightarrow> x)"

definition make_task_id :: "string \<Rightarrow> nat \<Rightarrow> string" where
  "make_task_id session i = ''task_'' @ str_nat i @ ''_'' @ session"

text \<open>
  The body of the \<open>for i, subtask in enumerate(subtasks)\<close> loop.  The arguments of
  \<open>AgentTask(...)\<close> are evaluated in the order written: the role lookup may raise before
  the description is read.  The remaining fields take the dataclass defaults.
\<close>

definition make_task :: "string \<Rightarrow> datetime \<Rightarrow> nat \<Rightarrow> subtask \<Rightarrow> py_exception + AgentTask" where
  "make_task session now i sub =
     (case AgentRole_of (dict_get (st_role sub) ''executor'') of
        Inl e \<Rightarrow> Inl e
      | Inr r \<Rightarrow>
         (case st_description sub of
            None \<Rightarrow> Inl (KeyError ''description'')
          | Some d \<Rightarrow>
              Inr \<lparr> task_id = make_task_id session i, role = r, description = d,
                    dependencies = dict_get (st_dependencies sub) [],
                    status = PENDING, result = None, error = None,
                    created_at = now, started_at = None, completed_at = None \<rparr>))"

text \<open>The loop, with the list \<open>tasks\<close> built so far and the index of the next spec.\<close>

fun create_loop ::
  "string \<Rightarrow> datetime \<Rightarrow> AgentTask list \<Rightarrow> nat \<Rightarrow> subtask list \<Rightarrow> py_exception + AgentTask list" where
  "create_loop session now tasks i [] = Inr tasks"
| "create_loop session now tasks i (sub # subs) =
     (case make_task session now i sub of
        Inl e \<Rightarrow> Inl e
      | Inr t \<Rightarrow> create_loop session (Suc now) (tasks @ [t]) (Suc i) subs)"

definition create_task_graph :: "string \<Rightarrow> datetime \<Rightarrow> subtask list \<Rightarrow> py_exception + AgentTask list" where
  "create_task_graph session now subtasks = create_loop session now [] 0 subtasks"

text \<open>A spec the constructor rejects: an unknown role value, or no description.\<close>

definition spec_rejected :: "subtask \<Rightarrow> bool" where
  "spec_rejected sub \<longleftrightarrow>
     dict_get (st_role sub) ''executor'' \<notin> set (map AgentRole_value
        [COORDINATOR, RESEARCHER, ANALYST, EXECUTOR, VALIDATOR])
     \<or> st_description sub = None"

section \<open>\_execute\_task\_graph\<close>

text \<open>
  The task objects are shared between \<open>tasks\<close>, \<open>pending_tasks\<close> and \<open>batch\<close>, and are
  mutated in place.  The list \<open>tasks\<close> is the object store; a reference to a task is its
  position in \<open>tasks\<close>, and \<open>pending_tasks\<close> (a shallow copy) is a list of references.
  \<open>completed_tasks\<close> is \<open>self.state.completed_tasks\<close>; \<open>results\<close> is the dictionary the
  function returns.
\<close>

record result_entry =
  re_status :: string
  re_result :: "payload option"
  re_error :: "string option"

record sched =
  tasks :: "AgentTask list"
  pending_tasks :: "nat list"
  completed_tasks :: "string list"
  results :: "string \<rightharpoonup> result_entry"
  clock :: datetime

text \<open>
  What \<open>asyncio.gather(..., return_exceptions=True)\<close> yields for one dispatch: the exception
  (\<open>isinstance(result, Exception)\<close> holds) or the returned value.
\<close>

datatype dispatch_result = Raised py_exception | Returned payload

text \<open>The list comprehension computing \<open>ready_tasks\<close>.\<close>

definition ready_tasks :: "AgentTask list \<Rightarrow> nat list \<Rightarrow> string list \<Rightarrow> nat list" where
  "ready_tasks ts pending completed =
     filter (\<lambda>r. list_all (\<lambda>dep. dep \<in> set completed) (dependencies (ts ! r))) pending"

text \<open>\<open>xs[:k]\<close> for a Python integer \<open>k\<close>: a negative \<open>k\<close> counts from the end.\<close>

definition py_slice_to :: "'a list \<Rightarrow> int \<Rightarrow> 'a list" where
  "py_slice_to xs k = (if 0 \<le> k then take (nat k) xs else take (length xs - nat (- k)) xs)"

definition select_batch :: "int \<Rightarrow> nat list \<Rightarrow> nat list" where
  "select_batch max_parallel_agents ready =
     (let batch_size = min (int (length ready)) max_parallel_agents
      in py_slice_to ready batch_size)"

text \<open>
  \<open>_execute_single_task\<close> up to its first suspension: the task is marked and stamped.
  \<open>gather\<close> starts the coroutines of the batch in order.
\<close>

definition start_task :: "nat \<Rightarrow> sched \<Rightarrow> sched" where
  "start_task r s =
     s\<lparr> tasks := (tasks s)[r := (tasks s ! r)\<lparr> status := IN_PROGRESS, started_at := Some (clock s) \<rparr>],
        clock := Suc (clock s) \<rparr>"

text \<open>The value the source's placeholder \<open>_execute_single_task\<close> returns; it never raises.\<close>

definition execute_single_task :: "AgentTask \<Rightarrow> dispatch_result" where
  "execute_single_task t =
     Returned [(''task_id'', task_id t),
               (''output'', ''Task '' @ description t @ '' completed by '' @ AgentRole_value (role t))]"

text \<open>
  \<open>pending_tasks.remove(task)\<close>: the first element that is \<open>task\<close> or equal to it (the
  dataclass compares all fields) is removed; \<open>ValueError\<close> when there is none.
\<close>

fun py_remove :: "AgentTask list \<Rightarrow> nat \<Rightarrow> nat list \<Rightarrow> py_exception + nat list" where
  "py_remove ts r [] = Inl (ValueError ''list.remove(x): x not in list'')"
| "py_remove ts r (j # js) =
     (if j = r \<or> ts ! j = ts ! r then Inr js
      else (case py_remove ts r js of Inl e \<Rightarrow> Inl e | Inr js' \<Rightarrow> Inr (j # js')))"

text \<open>The body of \<open>for task, result in zip(batch, batch_results)\<close>.\<close>

definition record_result :: "nat \<Rightarrow> dispatch_result \<Rightarrow> sched \<Rightarrow> py_exception + sched" where
  "record_result r res s =
     (let t = tasks s ! r;
          t1 = (case res of
                  Raised e \<Rightarrow> t\<lparr> status := FAILED, error := Some (exc_str e) \<rparr>
                | Returned v \<Rightarrow> t\<lparr> status := COMPLETED, result := Some v \<rparr>);
          completed = (case res of
                  Raised e \<Rightarrow> completed_tasks s
                | Returned v \<Rightarrow> completed_tasks s @ [task_id t]);
          t2 = t1\<lparr> completed_at := Some (clock s) \<rparr>;
          ts = (tasks s)[r := t2];
          entry = \<lparr> re_status = TaskStatus_value (status t2), re_result = result t2,
                    re_error = error t2 \<rparr>
      in case py_remove ts r (pending_tasks s) of
           Inl e \<Rightarrow> Inl e
         | Inr pending \<Rightarrow>
             Inr (s\<lparr> tasks := ts, pending_tasks := pending, completed_tasks := completed,
                     results := (results s)(task_id t2 \<mapsto> entry), clock := Suc (clock s) \<rparr>))"

fun process_batch :: "(nat \<times> dispatch_result) list \<Rightarrow> sched \<Rightarrow> py_exception + sched" where
  "process_batch [] s = Inr s"
| "process_batch ((r, res) # rest) s =
     (case record_result r res s of Inl e \<Rightarrow> Inl e | Inr s' \<Rightarrow> process_batch rest s')"

text \<open>
  One iteration of the \<open>while\<close> loop past the two exits: select the batch, dispatch it
  (\<open>run\<close> is the outcome of the execution delegate on a started task), join, record.
\<close>

definition run_round :: "int \<Rightarrow> (AgentTask \<Rightarrow> dispatch_result) \<Rightarrow> sched \<Rightarrow> py_exception + sched" where
  "run_round max_parallel_agents run s =
     (let ready = ready_tasks (tasks s) (pending_tasks s) (completed_tasks s);
          batch = select_batch max_parallel_agents ready;
          s1 = fold start_task batch s;
          batch_results = map (\<lambda>r. run (tasks s1 ! r)) batch
      in process_batch (zip batch batch_results) s1)"

text \<open>
  The \<open>while pending_tasks\<close> loop.  \<open>None\<close>: the loop never exits; \<open>Some (Inl e)\<close>: it
  raises; \<open>Some (Inr s)\<close>: it exits in state \<open>s\<close>, by the loop condition or by \<open>break\<close>.
\<close>

partial_function (option) execute_loop ::
  "int \<Rightarrow> (AgentTask \<Rightarrow> dispatch_result) \<Rightarrow> sched \<Rightarrow> (py_exception + sched) option" where
  "execute_loop max_parallel_agents run s =
     (if pending_tasks s = [] then Some (Inr s)
      else if ready_tasks (tasks s) (pending_tasks s) (completed_tasks s) = [] then Some (Inr s)
      else (case run_round max_parallel_agents run s of
              Inl e \<Rightarrow> Some (Inl e)
            | Inr s' \<Rightarrow> execute_loop max_parallel_agents run s'))"

text \<open>
  \<open>_execute_task_graph(tasks)\<close>: \<open>results = {}\<close>, \<open>pending_tasks = tasks.copy()\<close>, then the
  loop.  \<open>completed\<close> is \<open>self.state.completed_tasks\<close> on entry.
\<close>

definition execute_task_graph ::
  "int \<Rightarrow> (AgentTask \<Rightarrow> dispatch_result) \<Rightarrow> string list \<Rightarrow> datetime \<Rightarrow> AgentTask list
     \<Rightarrow> (py_exception + sched) option" where
  "execute_task_graph max_parallel_agents run completed now ts =
     execute_loop max_parallel_agents run
       \<lparr> tasks = ts, pending_tasks = [0..<length ts], completed_tasks = completed,
         results = Map.empty, clock = now \<rparr>"

section \<open>orchestrate\<close>

record orchestration_metadata =
  total_tasks :: nat
  completed_count :: nat
  failed_count :: nat
  md_session_id :: string

record orchestration_result =
  main_task :: string
  or_status :: string
  or_results :: "string \<rightharpoonup> result_entry"
  metadata :: orchestration_metadata

text \<open>
  \<open>orchestrate\<close> on a fresh orchestrator (\<open>self.state.completed_tasks\<close> is empty).  The
  final task objects are returned beside the dictionary, as the caller's \<open>tasks\<close> would
  hold them.
\<close>

definition orchestrate ::
  "string \<Rightarrow> int \<Rightarrow> (AgentTask \<Rightarrow> dispatch_result) \<Rightarrow> datetime \<Rightarrow> string \<Rightarrow> subtask list
     \<Rightarrow> (py_exception + orchestration_result \<times> AgentTask list) option" where
  "orchestrate session max_parallel_agents run now main subtasks =
     (case create_task_graph session now subtasks of
        Inl e \<Rightarrow> Some (Inl e)
      | Inr ts \<Rightarrow>
         (case execute_task_graph max_parallel_agents run [] (now + length ts) ts of
            None \<Rightarrow> None
          | Some (Inl e) \<Rightarrow> Some (Inl e)
          | Some (Inr s) \<Rightarrow>
              Some (Inr (\<lparr> main_task = main, or_status = ''completed'', or_results = results s,
                           metadata = \<lparr> total_tasks = length (tasks s),
                             completed_count = length (filter (\<lambda>t. status t = COMPLETED) (tasks s)),
                             failed_count = length (filter (\<lambda>t. status t = FAILED) (tasks s)),
                             md_session_id = session \<rparr> \<rparr>, tasks s))))"

section \<open>python\_sandbox.py\<close>

record ExecutionResult =
  success :: bool
  stdout :: string
  stderr :: string
  return_code :: int
  execution_time :: real
  memory_used :: int

record PythonSandbox =
  timeout_seconds :: int
  max_memory_bytes :: int
  max_cpu_time :: int

definition PythonSandbox_init :: "int \<Rightarrow> int \<Rightarrow> int \<Rightarrow> PythonSandbox" where
  "PythonSandbox_init timeout max_memory_mb max_cpu =
     \<lparr> timeout_seconds = timeout, max_memory_bytes = max_memory_mb * 1024 * 1024,
       max_cpu_time = max_cpu \<rparr>"

text \<open>
  The code to run is a Python \<open>str\<close>: a list of code points, which may hold lone
  surrogates (\<open>U+D800\<close> to \<open>U+DFFF\<close>).  Captured output and messages are \<open>string\<close>s.
\<close>

type_synonym py_str = "nat list"

definition codepoints :: "string \<Rightarrow> py_str" where
  "codepoints s = map of_char s"

text \<open>\<open>s.split(sep)\<close> for a one-character separator, and \<open>sep.join(xs)\<close>.\<close>

fun py_split :: "nat \<Rightarrow> py_str \<Rightarrow> py_str list" where
  "py_split sep [] = [[]]"
| "py_split sep (c # cs) =
     (if c = sep then [] # py_split sep cs
      else (case py_split sep cs of l # ls \<Rightarrow> (c # l) # ls | [] \<Rightarrow> [[c]]))"

fun py_join :: "py_str \<Rightarrow> py_str list \<Rightarrow> py_str" where
  "py_join sep [] = []"
| "py_join sep [x] = x"
| "py_join sep (x # y # ys) = x @ sep @ py_join sep (y # ys)"

definition indent_code :: "py_str \<Rightarrow> nat \<Rightarrow> py_str" where
  "indent_code code levels =
     (let indent = concat (replicate levels (codepoints ''    ''))
      in py_join [10] (map (\<lambda>line. indent @ line) (py_split 10 code)))"

definition wrap_code :: "py_str \<Rightarrow> py_str" where
  "wrap_code code =
     [10] @ codepoints ''import sys'' @ [10] @ codepoints ''import time'' @ [10] @ [10]
     @ codepoints ''start_time = time.time()'' @ [10] @ [10]
     @ codepoints ''try:'' @ [10]
     @ indent_code code 1 @ [10]
     @ codepoints ''except Exception as e:'' @ [10]
     @ codepoints ''    print(f'' @ [34] @ codepoints ''Execution error: {e}'' @ [34]
     @ codepoints '', file=sys.stderr)'' @ [10]
     @ codepoints ''    sys.exit(1)'' @ [10]
     @ codepoints ''finally:'' @ [10]
     @ codepoints ''    elapsed = time.time() - start_time'' @ [10]
     @ codepoints ''    print(f'' @ [34] @ [92] @ codepoints ''nExecution time: {elapsed:.2f}s'' @ [34]
     @ codepoints '', file=sys.stderr)'' @ [10]"

text \<open>
  A text file opened with \<open>mode='w'\<close> encodes strictly: a text with a lone surrogate
  cannot be written.
\<close>

definition encode_strict :: "py_str \<Rightarrow> py_exception option" where
  "encode_strict text =
     (if list_ex (\<lambda>c. 0xD800 \<le> c \<and> c \<le> 0xDFFF) text
      then Some (UnicodeEncodeError ''surrogates not allowed'') else None)"

text \<open>
  What the operating system does during one call is a parameter:
  \<^item> \<open>mktemp\<close>: \<open>NamedTemporaryFile(mode='w', suffix='.py', delete=False)\<close> fails, or
    creates a file and yields its name;
  \<^item> \<open>write_failure\<close>: writing and closing the file fails (disk full, ...);
  \<^item> \<open>popen\<close>: \<open>subprocess.Popen\<close> fails to spawn the child;
  \<^item> \<open>communicate\<close>: the child exits within the time limit with its decoded output,
    its return code and the measured wall time, or \<open>TimeoutExpired\<close> is raised, or
    another exception is;
  \<^item> \<open>child_files\<close>: what the child does to the set of files on disk.

  \<open>os.remove\<close> of an existing file is taken to succeed.
\<close>

datatype communicate_result =
  Exited string string int real | TimeoutExpired | CommunicateRaised py_exception

record os_env =
  mktemp :: "py_exception + string"
  write_failure :: "py_exception option"
  popen :: "py_exception option"
  communicate :: communicate_result
  child_files :: "string set \<Rightarrow> string set"

datatype child_state = NotSpawned | Running | Terminated int | Killed

record world =
  files :: "string set"
  child :: child_state

text \<open>
  \<open>_execute_with_limits\<close>.  Every exception is caught: by the inner handler
  (\<open>TimeoutExpired\<close>) or by the outer \<open>except Exception\<close>.
\<close>

definition execute_with_limits ::
  "PythonSandbox \<Rightarrow> os_env \<Rightarrow> string \<Rightarrow> world \<Rightarrow> ExecutionResult \<times> world" where
  "execute_with_limits sb env file_path w =
     (case popen env of
        Some e \<Rightarrow>
          (\<lparr> success = False, stdout = [], stderr = exc_str e, return_code = - 1,
             execution_time = 0, memory_used = 0 \<rparr>, w)
      | None \<Rightarrow>
          (let w1 = w\<lparr> files := child_files env (files w), child := Running \<rparr>
           in case communicate env of
                Exited out err rc elapsed \<Rightarrow>
                  (\<lparr> success = (rc = 0), stdout = out, stderr = err, return_code = rc,
                     execution_time = elapsed, memory_used = 0 \<rparr>,
                   w1\<lparr> child := Terminated rc \<rparr>)
              | TimeoutExpired \<Rightarrow>
                  (\<lparr> success = False, stdout = [],
                     stderr = ''Execution timeout after '' @ str_int (timeout_seconds sb) @ ''s'',
                     return_code = - 1, execution_time = of_int (timeout_seconds sb),
                     memory_used = 0 \<rparr>,
                   w1\<lparr> child := Killed \<rparr>)
              | CommunicateRaised e \<Rightarrow>
                  (\<lparr> success = False, stdout = [], stderr = exc_str e, return_code = - 1,
                     execution_time = 0, memory_used = 0 \<rparr>, w1)))"

text \<open>
  \<open>execute\<close>.  The \<open>with\<close> block that creates and writes the file stands before the
  \<open>try\<close>; the \<open>finally\<close> clause removes the file when it exists.
\<close>

definition execute ::
  "PythonSandbox \<Rightarrow> os_env \<Rightarrow> py_str \<Rightarrow> world \<Rightarrow> (py_exception + ExecutionResult) \<times> world" where
  "execute sb env code w =
     (case mktemp env of
        Inl e \<Rightarrow> (Inl e, w)
      | Inr temp_file \<Rightarrow>
          (let w1 = w\<lparr> files := insert temp_file (files w) \<rparr>
           in case encode_strict (wrap_code code) of
                Some e \<Rightarrow> (Inl e, w1)
              | None \<Rightarrow>
                 (case write_failure env of
                    Some e \<Rightarrow> (Inl e, w1)
                  | None \<Rightarrow>
                     (let (res, w2) = execute_with_limits sb env temp_file w1;
                          w3 = (if temp_file \<in> files w2
                                then w2\<lparr> files := files w2 - {temp_file} \<rparr> else w2)
                      in (Inr res, w3)))))"

section \<open>Auxiliary notions for the proofs\<close>

text \<open>The number a string of decimal digits denotes: the inverse of \<open>str_nat\<close>.\<close>

definition digits_value :: "string \<Rightarrow> nat" where
  "digits_value s = foldl (\<lambda>a c. 10 * a + (of_char c - 48)) 0 s"

text \<open>
  The effect of one pass of the recording loop when \<open>remove\<close> takes out the task itself,
  the invariant under which it does, and names for the batch of a round and for the
  outcome of each of its dispatches.
\<close>

definition finished_task :: "datetime \<Rightarrow> dispatch_result \<Rightarrow> AgentTask \<Rightarrow> AgentTask" where
  "finished_task now res t =
     (case res of
        Raised e \<Rightarrow> t\<lparr> status := FAILED, error := Some (exc_str e), completed_at := Some now \<rparr>
      | Returned v \<Rightarrow> t\<lparr> status := COMPLETED, result := Some v, completed_at := Some now \<rparr>)"

definition entry_of :: "AgentTask \<Rightarrow> result_entry" where
  "entry_of t = \<lparr> re_status = TaskStatus_value (status t), re_result = result t, re_error = error t \<rparr>"

definition newly_completed :: "dispatch_result \<Rightarrow> string \<Rightarrow> string list" where
  "newly_completed res tid = (case res of Raised e \<Rightarrow> [] | Returned v \<Rightarrow> [tid])"

definition finish_task :: "nat \<times> dispatch_result \<Rightarrow> sched \<Rightarrow> sched" where
  "finish_task x s =
     (let r = fst x; res = snd x; t = finished_task (clock s) res (tasks s ! r)
      in s\<lparr> tasks := (tasks s)[r := t], pending_tasks := remove1 r (pending_tasks s),
            completed_tasks := completed_tasks s @ newly_completed res (task_id t),
            results := (results s)(task_id t \<mapsto> entry_of t), clock := Suc (clock s) \<rparr>)"

definition sched_inv :: "sched \<Rightarrow> bool" where
  "sched_inv s \<longleftrightarrow>
     distinct (map task_id (tasks s)) \<and> distinct (pending_tasks s) \<and>
     (\<forall>r \<in> set (pending_tasks s). r < length (tasks s))"

definition status_of :: "dispatch_result \<Rightarrow> TaskStatus" where
  "status_of res = (case res of Raised e \<Rightarrow> FAILED | Returned v \<Rightarrow> COMPLETED)"

definition round_batch :: "int \<Rightarrow> sched \<Rightarrow> nat list" where
  "round_batch cap s =
     select_batch cap (ready_tasks (tasks s) (pending_tasks s) (completed_tasks s))"

definition round_outcome :: "int \<Rightarrow> (AgentTask \<Rightarrow> dispatch_result) \<Rightarrow> sched \<Rightarrow> nat \<Rightarrow> dispatch_result" where
  "round_outcome cap run s r = run (tasks (fold start_task (round_batch cap s) s) ! r)"

text \<open>A freshly created task, for the examples; and whether a dispatch returned.\<close>

definition new_task :: "string \<Rightarrow> string list \<Rightarrow> AgentTask" where
  "new_task tid deps =
     \<lparr> task_id = tid, role = EXECUTOR, description = ''d'', dependencies = deps,
       status = PENDING, result = None, error = None, created_at = 0, started_at = None,
       completed_at = None \<rparr>"

definition is_returned :: "dispatch_result \<Rightarrow> bool" where
  "is_returned res = (case res of Raised e \<Rightarrow> False | Returned v \<Rightarrow> True)"

section \<open>Task graph construction\<close>
lemma digits_value_snoc: "digits_value (s @ [c]) = 10 * digits_value s + (of_char c - 48)"
  by (simp add: digits_value_def)

lemma of_char_digit_char: "d < 10 \<Longrightarrow> of_char (digit_char d) = 48 + d"
  by (simp add: digit_char_def)

lemma digits_value_str_nat: "digits_value (str_nat n) = n"
proof (induction n rule: str_nat.induct)
  case (1 n)
  show ?case
  proof (cases "n < 10")
    case True
    then show ?thesis
      by (subst str_nat.simps) (simp add: digits_value_def of_char_digit_char)
  next
    case False
    with 1 have "digits_value (str_nat (n div 10)) = n div 10" by simp
    with False show ?thesis
      by (subst str_nat.simps) (simp add: digits_value_snoc of_char_digit_char)
  qed
qed

lemma str_nat_inj: "str_nat a = str_nat b \<Longrightarrow> a = b"
  by (metis digits_value_str_nat)

lemma make_task_id_inj: "make_task_id session i = make_task_id session j \<Longrightarrow> i = j"
  by (simp add: make_task_id_def str_nat_inj)

lemma AgentRole_of_Inl_iff:
  "(\<exists>e. AgentRole_of v = Inl e) \<longleftrightarrow>
     v \<notin> set (map AgentRole_value [COORDINATOR, RESEARCHER, ANALYST, EXECUTOR, VALIDATOR])"
  by (simp add: AgentRole_of_def)

lemma AgentRole_of_Inr: "AgentRole_of v = Inr r \<Longrightarrow> AgentRole_value r = v"
  by (auto simp: AgentRole_of_def split: if_splits)

lemma make_task_Inl_iff: "(\<exists>e. make_task session now i sub = Inl e) \<longleftrightarrow> spec_rejected sub"
  using AgentRole_of_Inl_iff [of "dict_get (st_role sub) ''executor''"]
  by (auto simp: make_task_def spec_rejected_def split: sum.splits option.splits)

lemma make_task_Inr:
  "make_task session now i sub = Inr t \<Longrightarrow>
     task_id t = make_task_id session i \<and>
     AgentRole_value (role t) = dict_get (st_role sub) ''executor'' \<and>
     st_description sub = Some (description t) \<and>
     dependencies t = dict_get (st_dependencies sub) [] \<and>
     status t = PENDING \<and> result t = None \<and> error t = None \<and>
     created_at t = now \<and> started_at t = None \<and> completed_at t = None"
  by (auto simp: make_task_def split: sum.splits option.splits dest: AgentRole_of_Inr)

lemma create_loop_Inl_iff:
  "(\<exists>e. create_loop session now acc i subs = Inl e) \<longleftrightarrow> (\<exists>sub \<in> set subs. spec_rejected sub)"
proof (induction subs arbitrary: now acc i)
  case Nil
  show ?case by simp
next
  case (Cons sub subs)
  show ?case
  proof (cases "make_task session now i sub")
    case (Inl e)
    then have "spec_rejected sub" using make_task_Inl_iff by blast
    with Inl show ?thesis by simp
  next
    case (Inr t)
    then have "\<not> spec_rejected sub" using make_task_Inl_iff [of session now i sub] by simp
    with Inr Cons.IH [of "Suc now" "acc @ [t]" "Suc i"] show ?thesis by simp
  qed
qed

lemma create_loop_Inr:
  "create_loop session now acc i subs = Inr ts \<Longrightarrow>
     length ts = length acc + length subs \<and> take (length acc) ts = acc \<and>
     (\<forall>k < length subs. make_task session (now + k) (i + k) (subs ! k) = Inr (ts ! (length acc + k)))"
proof (induction subs arbitrary: now acc i)
  case Nil
  then show ?case by simp
next
  case (Cons sub subs)
  from Cons.prems obtain t where t: "make_task session now i sub = Inr t"
    and rest: "create_loop session (Suc now) (acc @ [t]) (Suc i) subs = Inr ts"
    by (auto split: sum.splits)
  from Cons.IH [OF rest] have len: "length ts = length acc + 1 + length subs"
    and pre: "take (length acc + 1) ts = acc @ [t]"
    and nth: "\<forall>k < length subs.
        make_task session (Suc now + k) (Suc i + k) (subs ! k) = Inr (ts ! (length acc + 1 + k))"
    by simp_all
  from pre have "take (length acc) (take (length acc + 1) ts) = take (length acc) (acc @ [t])"
    by simp
  then have pre': "take (length acc) ts = acc"
    by simp
  from pre len have t_at: "ts ! length acc = t"
    by (metis nth_take lessI nth_append_length Suc_eq_plus1)
  have "make_task session (now + k) (i + k) ((sub # subs) ! k) = Inr (ts ! (length acc + k))"
    if "k < length (sub # subs)" for k
  proof (cases k)
    case 0
    with t t_at show ?thesis by simp
  next
    case (Suc k')
    with that nth show ?thesis by simp
  qed
  with len pre' show ?case by simp
qed


lemma create_loop_total:
  "(\<exists>e. create_loop session now acc i subs = Inl e) \<or> (\<exists>ts. create_loop session now acc i subs = Inr ts)"
  by (cases "create_loop session now acc i subs") auto

lemma create_task_graph_nth:
  assumes "create_task_graph session now subtasks = Inr ts"
  shows "length ts = length subtasks"
    and "i < length subtasks \<Longrightarrow> make_task session (now + i) i (subtasks ! i) = Inr (ts ! i)"
  using create_loop_Inr [of session now "[]" 0 subtasks ts] assms
  by (simp_all add: create_task_graph_def)

lemma create_task_graph_ids:
  assumes "create_task_graph session now subtasks = Inr ts"
  shows "map task_id ts = map (make_task_id session) [0..<length ts]"
proof (rule nth_equalityI)
  show "length (map task_id ts) = length (map (make_task_id session) [0..<length ts])" by simp
next
  fix i assume "i < length (map task_id ts)"
  then have i: "i < length subtasks" using create_task_graph_nth(1) [OF assms] by simp
  from make_task_Inr [OF create_task_graph_nth(2) [OF assms i]] i create_task_graph_nth(1) [OF assms]
  show "map task_id ts ! i = map (make_task_id session) [0..<length ts] ! i" by simp
qed

lemma create_task_graph_distinct:
  assumes "create_task_graph session now subtasks = Inr ts"
  shows "distinct (map task_id ts)"
  unfolding create_task_graph_ids [OF assms]
  by (simp add: distinct_map inj_on_def make_task_id_inj)


lemma str_nat_0: "str_nat 0 = ''0''"
  by code_simp



section \<open>One round of the scheduler\<close>

lemma task_id_finished [simp]: "task_id (finished_task now res t) = task_id t"
  by (simp add: finished_task_def split: dispatch_result.splits)

lemma dependencies_finished [simp]: "dependencies (finished_task now res t) = dependencies t"
  by (simp add: finished_task_def split: dispatch_result.splits)

lemma py_remove_present:
  assumes "distinct (map task_id ts)" and "r < length ts" and "\<forall>j \<in> set ps. j < length ts"
    and "r \<in> set ps"
  shows "py_remove ts r ps = Inr (remove1 r ps)"
  using assms(3,4)
proof (induction ps)
  case Nil
  then show ?case by simp
next
  case (Cons j js)
  show ?case
  proof (cases "j = r")
    case True
    then show ?thesis by simp
  next
    case False
    have "j < length ts" using Cons.prems by simp
    with False assms(1,2) have "task_id (ts ! j) \<noteq> task_id (ts ! r)"
      by (metis length_map nth_eq_iff_index_eq nth_map)
    then have "ts ! j \<noteq> ts ! r" by auto
    with False Cons show ?thesis by simp
  qed
qed

lemma map_update_same: "f t = f (ts ! r) \<Longrightarrow> map f (ts[r := t]) = map f ts"
  by (metis list_update_id map_update)

lemma record_result_finish:
  assumes "sched_inv s" and "r \<in> set (pending_tasks s)"
  shows "record_result r res s = Inr (finish_task (r, res) s)"
proof -
  let ?t = "finished_task (clock s) res (tasks s ! r)"
  let ?ts = "(tasks s)[r := ?t]"
  from assms have r: "r < length (tasks s)" by (simp add: sched_inv_def)
  have ids: "map task_id ?ts = map task_id (tasks s)" by (simp add: map_update_same)
  have "py_remove ?ts r (pending_tasks s) = Inr (remove1 r (pending_tasks s))"
    using assms r by (intro py_remove_present) (simp_all add: ids sched_inv_def)
  then show ?thesis
    by (cases res)
      (simp_all add: record_result_def finish_task_def finished_task_def entry_of_def
        newly_completed_def Let_def)
qed

lemma sched_inv_finish:
  assumes "sched_inv s" and "r \<in> set (pending_tasks s)"
  shows "sched_inv (finish_task (r, res) s)"
  using assms by (auto simp: sched_inv_def finish_task_def Let_def map_update_same)

lemma process_batch_fold:
  assumes "sched_inv s" and "distinct (map fst xs)" and "fst ` set xs \<subseteq> set (pending_tasks s)"
  shows "process_batch xs s = Inr (fold finish_task xs s)"
  using assms
proof (induction xs arbitrary: s)
  case Nil
  then show ?case by simp
next
  case (Cons x xs)
  obtain r res where x: "x = (r, res)" by (cases x)
  from Cons.prems x have r: "r \<in> set (pending_tasks s)" by simp
  have inv: "sched_inv (finish_task (r, res) s)" by (rule sched_inv_finish [OF Cons.prems(1) r])
  have sub: "fst ` set xs \<subseteq> set (pending_tasks (finish_task (r, res) s))"
    using Cons.prems x by (force simp: finish_task_def Let_def sched_inv_def)
  from Cons.prems have d: "distinct (map fst xs)" by simp
  show ?case
    using record_result_finish [OF Cons.prems(1) r, of res] Cons.IH [OF inv d sub] x by simp
qed

lemma finish_task_simps [simp]:
  "tasks (finish_task (r, res) s) = (tasks s)[r := finished_task (clock s) res (tasks s ! r)]"
  "pending_tasks (finish_task (r, res) s) = remove1 r (pending_tasks s)"
  "completed_tasks (finish_task (r, res) s) =
     completed_tasks s @ newly_completed res (task_id (tasks s ! r))"
  "results (finish_task (r, res) s) =
     (results s)(task_id (tasks s ! r) \<mapsto> entry_of (finished_task (clock s) res (tasks s ! r)))"
  "clock (finish_task (r, res) s) = Suc (clock s)"
  by (simp_all add: finish_task_def Let_def)

lemma start_task_simps [simp]:
  "tasks (start_task r s) =
     (tasks s)[r := (tasks s ! r)\<lparr> status := IN_PROGRESS, started_at := Some (clock s) \<rparr>]"
  "pending_tasks (start_task r s) = pending_tasks s"
  "completed_tasks (start_task r s) = completed_tasks s"
  "results (start_task r s) = results s"
  "clock (start_task r s) = Suc (clock s)"
  by (simp_all add: start_task_def)

text \<open>The dispatch phase touches the status and the start time of the batch only.\<close>

lemma fold_start_frame:
  "pending_tasks (fold start_task rs s) = pending_tasks s \<and>
   completed_tasks (fold start_task rs s) = completed_tasks s \<and>
   results (fold start_task rs s) = results s \<and>
   clock (fold start_task rs s) = clock s + length rs \<and>
   length (tasks (fold start_task rs s)) = length (tasks s) \<and>
   map task_id (tasks (fold start_task rs s)) = map task_id (tasks s) \<and>
   map dependencies (tasks (fold start_task rs s)) = map dependencies (tasks s) \<and>
   map result (tasks (fold start_task rs s)) = map result (tasks s) \<and>
   map error (tasks (fold start_task rs s)) = map error (tasks s)"
proof (induction rs arbitrary: s)
  case Nil
  show ?case by simp
next
  case (Cons r rs)
  show ?case using Cons.IH [of "start_task r s"] by (simp add: map_update_same)
qed

lemma fold_start_status:
  "r < length (tasks s) \<Longrightarrow>
     status (tasks (fold start_task rs s) ! r) =
       (if r \<in> set rs then IN_PROGRESS else status (tasks s ! r))"
proof (induction rs arbitrary: s)
  case Nil
  show ?case by simp
next
  case (Cons a rs)
  then show ?case by (cases "a = r") simp_all
qed

lemma sched_inv_fold_start: "sched_inv (fold start_task rs s) = sched_inv s"
  using fold_start_frame [of rs s] by (simp add: sched_inv_def)

text \<open>The recording phase, for outcomes given by a function of the reference.\<close>

lemma finished_task_fields [simp]:
  "status (finished_task now res t) = status_of res"
  "result (finished_task now res t) = (case res of Raised e \<Rightarrow> result t | Returned v \<Rightarrow> Some v)"
  "error (finished_task now res t) = (case res of Raised e \<Rightarrow> Some (exc_str e) | Returned v \<Rightarrow> error t)"
  "completed_at (finished_task now res t) = Some now"
  by (simp_all add: finished_task_def status_of_def split: dispatch_result.splits)

lemma fold_finish_frame:
  "clock (fold finish_task (map (\<lambda>r. (r, f r)) rs) s) = clock s + length rs \<and>
   length (tasks (fold finish_task (map (\<lambda>r. (r, f r)) rs) s)) = length (tasks s) \<and>
   map task_id (tasks (fold finish_task (map (\<lambda>r. (r, f r)) rs) s)) = map task_id (tasks s) \<and>
   map dependencies (tasks (fold finish_task (map (\<lambda>r. (r, f r)) rs) s)) = map dependencies (tasks s) \<and>
   pending_tasks (fold finish_task (map (\<lambda>r. (r, f r)) rs) s) = fold remove1 rs (pending_tasks s)"
proof (induction rs arbitrary: s)
  case Nil
  show ?case by simp
next
  case (Cons r rs)
  show ?case
    using Cons.IH [of "finish_task (r, f r) s"]
    by (simp add: map_update_same)
qed

lemma nth_finished_task_id:
  "task_id (ts[a := finished_task now res (ts ! a)] ! r) = task_id (ts ! r)"
proof (cases "a = r \<and> r < length ts")
  case True
  then show ?thesis by simp
next
  case False
  then have "ts[a := finished_task now res (ts ! a)] ! r = ts ! r"
    by (cases "a = r") (simp_all add: list_update_beyond)
  then show ?thesis by simp
qed

lemma fold_finish_task_id:
  "task_id (tasks (fold finish_task (map (\<lambda>r. (r, f r)) rs) s) ! r) = task_id (tasks s ! r)"
proof (induction rs arbitrary: s)
  case Nil
  show ?case by simp
next
  case (Cons a rs)
  show ?case
    using Cons.IH [of "finish_task (a, f a) s"] by (simp add: nth_finished_task_id)
qed

lemma fold_finish_status:
  "r < length (tasks s) \<Longrightarrow>
     status (tasks (fold finish_task (map (\<lambda>r. (r, f r)) rs) s) ! r) =
       (if r \<in> set rs then status_of (f r) else status (tasks s ! r))"
proof (induction rs arbitrary: s)
  case Nil
  show ?case by simp
next
  case (Cons a rs)
  then show ?case by (cases "a = r") simp_all
qed

lemma fold_finish_result:
  "r < length (tasks s) \<Longrightarrow>
     result (tasks (fold finish_task (map (\<lambda>r. (r, f r)) rs) s) ! r) =
       (if r \<in> set rs then (case f r of Raised e \<Rightarrow> result (tasks s ! r) | Returned v \<Rightarrow> Some v)
        else result (tasks s ! r))"
proof (induction rs arbitrary: s)
  case Nil
  show ?case by simp
next
  case (Cons a rs)
  then show ?case by (cases "a = r") (simp_all split: dispatch_result.splits)
qed

lemma fold_finish_error:
  "r < length (tasks s) \<Longrightarrow>
     error (tasks (fold finish_task (map (\<lambda>r. (r, f r)) rs) s) ! r) =
       (if r \<in> set rs then (case f r of Raised e \<Rightarrow> Some (exc_str e) | Returned v \<Rightarrow> error (tasks s ! r))
        else error (tasks s ! r))"
proof (induction rs arbitrary: s)
  case Nil
  show ?case by simp
next
  case (Cons a rs)
  then show ?case by (cases "a = r") (simp_all split: dispatch_result.splits)
qed

lemma fold_finish_other:
  "r \<notin> set rs \<Longrightarrow> tasks (fold finish_task (map (\<lambda>r. (r, f r)) rs) s) ! r = tasks s ! r"
proof (induction rs arbitrary: s)
  case Nil
  show ?case by simp
next
  case (Cons a rs)
  then show ?case by simp
qed

lemma fold_finish_completed_at:
  "r < length (tasks s) \<Longrightarrow> r \<in> set rs \<Longrightarrow>
     completed_at (tasks (fold finish_task (map (\<lambda>r. (r, f r)) rs) s) ! r) \<noteq> None"
proof (induction rs arbitrary: s)
  case Nil
  then show ?case by simp
next
  case (Cons a rs)
  show ?case
  proof (cases "r \<in> set rs")
    case True
    with Cons.IH [of "finish_task (a, f a) s"] Cons.prems show ?thesis by simp
  next
    case False
    with Cons.prems have a: "a = r" by simp
    from fold_finish_other [OF False, of f "finish_task (r, f r) s"] a Cons.prems
    show ?thesis by simp
  qed
qed

lemma fold_finish_completed:
  "completed_tasks (fold finish_task (map (\<lambda>r. (r, f r)) rs) s) =
     completed_tasks s @ concat (map (\<lambda>r. newly_completed (f r) (task_id (tasks s ! r))) rs)"
proof (induction rs arbitrary: s)
  case Nil
  show ?case by simp
next
  case (Cons a rs)
  show ?case
    using Cons.IH [of "finish_task (a, f a) s"] by (simp add: nth_finished_task_id)
qed

lemma fold_finish_results_other:
  "\<forall>r \<in> set rs. task_id (tasks s ! r) \<noteq> tid \<Longrightarrow>
     results (fold finish_task (map (\<lambda>r. (r, f r)) rs) s) tid = results s tid"
proof (induction rs arbitrary: s)
  case Nil
  show ?case by simp
next
  case (Cons a rs)
  from Cons.prems have "\<forall>r \<in> set rs. task_id (tasks (finish_task (a, f a) s) ! r) \<noteq> tid"
    by (simp add: nth_finished_task_id)
  from Cons.IH [OF this] Cons.prems show ?case by auto
qed

lemma entry_of_finished:
  "entry_of (finished_task now res t) =
     \<lparr> re_status = TaskStatus_value (status_of res),
       re_result = (case res of Raised e \<Rightarrow> result t | Returned v \<Rightarrow> Some v),
       re_error = (case res of Raised e \<Rightarrow> Some (exc_str e) | Returned v \<Rightarrow> error t) \<rparr>"
  by (simp add: entry_of_def)

lemma fold_finish_results_batch:
  assumes "distinct (map task_id (tasks s))" and "\<forall>a \<in> set rs. a < length (tasks s)"
    and "r \<in> set rs"
  shows "results (fold finish_task (map (\<lambda>r. (r, f r)) rs) s) (task_id (tasks s ! r)) =
           Some (entry_of (tasks (fold finish_task (map (\<lambda>r. (r, f r)) rs) s) ! r))"
  using assms
proof (induction rs arbitrary: s)
  case Nil
  then show ?case by simp
next
  case (Cons a rs)
  let ?s = "finish_task (a, f a) s"
  have ids: "map task_id (tasks ?s) = map task_id (tasks s)"
    by (simp add: map_update_same)
  have len: "length (tasks ?s) = length (tasks s)"
    by simp
  show ?case
  proof (cases "r \<in> set rs")
    case True
    have "results (fold finish_task (map (\<lambda>r. (r, f r)) rs) ?s) (task_id (tasks ?s ! r)) =
           Some (entry_of (tasks (fold finish_task (map (\<lambda>r. (r, f r)) rs) ?s) ! r))"
      using Cons.prems True by (intro Cons.IH) (simp_all add: ids len del: finish_task_simps(1))
    then show ?thesis by (simp add: nth_finished_task_id)
  next
    case False
    with Cons.prems have a: "a = r" and r: "r < length (tasks s)" by simp_all
    have "\<forall>b \<in> set rs. task_id (tasks ?s ! b) \<noteq> task_id (tasks s ! r)"
    proof
      fix b assume b: "b \<in> set rs"
      with False Cons.prems have "b \<noteq> r" and "b < length (tasks s)" by auto
      with r Cons.prems(1) have "task_id (tasks s ! b) \<noteq> task_id (tasks s ! r)"
        by (metis length_map nth_eq_iff_index_eq nth_map)
      then show "task_id (tasks ?s ! b) \<noteq> task_id (tasks s ! r)"
        by (simp add: nth_finished_task_id)
    qed
    from fold_finish_results_other [OF this, of f] fold_finish_other [OF False, of f ?s] a r
    show ?thesis by simp
  qed
qed

lemma fold_remove1_filter:
  "distinct ps \<Longrightarrow> fold remove1 rs ps = filter (\<lambda>x. x \<notin> set rs) ps"
proof (induction rs arbitrary: ps)
  case Nil
  show ?case by simp
next
  case (Cons r rs)
  have "remove1 r ps = filter (\<lambda>x. x \<noteq> r) ps"
    using Cons.prems by (simp add: distinct_remove1_removeAll removeAll_filter_not_eq) metis
  with Cons show ?case by (simp add: conj_commute)
qed

lemma fold_start_other:
  "r \<notin> set rs \<Longrightarrow> tasks (fold start_task rs s) ! r = tasks s ! r"
proof (induction rs arbitrary: s)
  case Nil
  show ?case by simp
next
  case (Cons a rs)
  then show ?case by simp
qed

text \<open>Selecting the batch.\<close>

lemma py_slice_to_take: "\<exists>n. py_slice_to xs k = take n xs"
  by (auto simp: py_slice_to_def)

lemma select_batch_take: "\<exists>n. select_batch cap ready = take n ready"
  by (simp add: select_batch_def Let_def py_slice_to_take)

lemma select_batch_nonneg:
  "0 \<le> cap \<Longrightarrow> select_batch cap ready = take (min (length ready) (nat cap)) ready"
  by (auto simp: select_batch_def py_slice_to_def Let_def min_def)

lemma select_batch_nonempty: "0 < cap \<Longrightarrow> ready \<noteq> [] \<Longrightarrow> select_batch cap ready \<noteq> []"
  by (cases ready) (auto simp: select_batch_nonneg min_def)

lemma round_batch_ready:
  "set (round_batch cap s) \<subseteq> set (ready_tasks (tasks s) (pending_tasks s) (completed_tasks s))"
  using select_batch_take [of cap "ready_tasks (tasks s) (pending_tasks s) (completed_tasks s)"]
  by (auto simp: round_batch_def dest: in_set_takeD)

lemma round_batch_pending: "set (round_batch cap s) \<subseteq> set (pending_tasks s)"
  using round_batch_ready [of cap s] by (auto simp: ready_tasks_def)

lemma round_batch_distinct: "distinct (pending_tasks s) \<Longrightarrow> distinct (round_batch cap s)"
  using select_batch_take [of cap "ready_tasks (tasks s) (pending_tasks s) (completed_tasks s)"]
  by (auto simp: round_batch_def ready_tasks_def)

lemma run_round_fold:
  assumes "sched_inv s"
  shows "run_round cap run s =
           Inr (fold finish_task (map (\<lambda>r. (r, round_outcome cap run s r)) (round_batch cap s))
                  (fold start_task (round_batch cap s) s))"
proof -
  let ?b = "round_batch cap s"
  let ?s1 = "fold start_task ?b s"
  have z: "zip ?b (map (\<lambda>r. run (tasks ?s1 ! r)) ?b) = map (\<lambda>r. (r, round_outcome cap run s r)) ?b"
    by (simp add: zip_map2 zip_same_conv_map round_outcome_def)
  have inv1: "sched_inv ?s1" using assms by (simp add: sched_inv_fold_start)
  have d: "distinct (map fst (map (\<lambda>r. (r, round_outcome cap run s r)) ?b))"
    using assms round_batch_distinct [of s cap] by (simp add: sched_inv_def comp_def)
  have sub: "fst ` set (map (\<lambda>r. (r, round_outcome cap run s r)) ?b) \<subseteq> set (pending_tasks ?s1)"
    using round_batch_pending [of cap s] fold_start_frame [of ?b s] by (auto simp: image_iff)
  have "run_round cap run s = process_batch (map (\<lambda>r. (r, round_outcome cap run s r)) ?b) ?s1"
    using z by (simp add: run_round_def Let_def round_batch_def)
  also have "\<dots> = Inr (fold finish_task (map (\<lambda>r. (r, round_outcome cap run s r)) ?b) ?s1)"
    by (rule process_batch_fold [OF inv1 d sub])
  finally show ?thesis .
qed

section \<open>Readiness, cancellation, deadlock and the outcome of a round\<close>

text \<open>
  Claim C4.  The ready list is the pending list filtered, in its order, by "every
  dependency id is in the completed list"; computing it changes nothing, and computing it
  again on its own result gives the same list.  For a non-negative concurrency cap the
  batch is the first \<open>min (length ready) cap\<close> tasks of the ready list.
\<close>

theorem ready_tasks_and_batch:
  "ready_tasks ts pending completed =
     filter (\<lambda>r. set (dependencies (ts ! r)) \<subseteq> set completed) pending \<and>
   ready_tasks ts (ready_tasks ts pending completed) completed = ready_tasks ts pending completed \<and>
   (0 \<le> cap \<longrightarrow>
      select_batch cap (ready_tasks ts pending completed) =
        take (min (length (ready_tasks ts pending completed)) (nat cap))
          (ready_tasks ts pending completed))"
  by (auto simp: ready_tasks_def list_all_iff select_batch_nonneg subset_iff intro: filter_cong)

text \<open>
  The theorem on three pending tasks, the second depending on the first, with cap 1.
\<close>

theorem ready_tasks_and_batch_witness:
  "ready_tasks [new_task ''a'' [], new_task ''b'' [''a''], new_task ''c'' []] [0, 1, 2] [] = [0, 2] \<and>
   select_batch 1 (ready_tasks [new_task ''a'' [], new_task ''b'' [''a''], new_task ''c'' []]
      [0, 1, 2] []) = [0]"
proof -
  let ?ts = "[new_task ''a'' [], new_task ''b'' [''a''], new_task ''c'' []]"
  note inst = ready_tasks_and_batch [of ?ts "[0, 1, 2]" "[]" 1]
  have deps: "dependencies (new_task tid ds) = ds" for tid ds
    by (simp add: new_task_def)
  have "ready_tasks ?ts [0, 1, 2] [] =
          filter (\<lambda>r. set (dependencies (?ts ! r)) \<subseteq> set []) [0, 1, 2]"
    by (rule inst [THEN conjunct1])
  also have "\<dots> = [0, 2]"
    by (simp add: deps)
  finally have r: "ready_tasks ?ts [0, 1, 2] [] = [0, 2]" .
  have "select_batch 1 (ready_tasks ?ts [0, 1, 2] []) =
        take (min (length (ready_tasks ?ts [0, 1, 2] [])) (nat 1)) (ready_tasks ?ts [0, 1, 2] [])"
    by (rule inst [THEN conjunct2, THEN conjunct2, THEN mp]) simp
  also have "\<dots> = [0]"
    unfolding r by simp
  finally show ?thesis using r by simp
qed

text \<open>
  Claim C9, as the code has it.  The readiness computation never reads a task's status:
  marking a task cancelled leaves the ready list as it was, and a pending task marked
  cancelled is in the ready list exactly when all its dependencies are completed.
\<close>

theorem cancelled_task_stays_ready:
  "ready_tasks (ts[r := (ts ! r)\<lparr> status := CANCELLED \<rparr>]) pending completed =
     ready_tasks ts pending completed \<and>
   (r \<in> set pending \<longrightarrow>
      (r \<in> set (ready_tasks (ts[r := (ts ! r)\<lparr> status := CANCELLED \<rparr>]) pending completed)
         \<longleftrightarrow> set (dependencies (ts ! r)) \<subseteq> set completed))"
proof -
  have "dependencies (ts[r := (ts ! r)\<lparr> status := CANCELLED \<rparr>] ! j) = dependencies (ts ! j)" for j
    by (cases "j = r \<and> r < length ts") (auto simp: list_update_beyond)
  then have eq: "ready_tasks (ts[r := (ts ! r)\<lparr> status := CANCELLED \<rparr>]) pending completed =
     ready_tasks ts pending completed"
    by (simp add: ready_tasks_def)
  show ?thesis unfolding eq by (auto simp: ready_tasks_def list_all_iff)
qed

text \<open>
  The theorem on one pending task without dependencies.
\<close>

theorem cancelled_task_stays_ready_witness:
  "ready_tasks ([new_task ''a'' []][0 := ([new_task ''a'' []] ! 0)\<lparr> status := CANCELLED \<rparr>]) [0] []
     = ready_tasks [new_task ''a'' []] [0] [] \<and>
   0 \<in> set (ready_tasks ([new_task ''a'' []][0 := ([new_task ''a'' []] ! 0)\<lparr> status := CANCELLED \<rparr>])
     [0] [])"
proof -
  note inst = cancelled_task_stays_ready [of "[new_task ''a'' []]" 0 "[0]" "[]"]
  have "0 \<in> set (ready_tasks ([new_task ''a'' []][0 := ([new_task ''a'' []] ! 0)\<lparr> status := CANCELLED \<rparr>])
     [0] []) \<longleftrightarrow> set (dependencies ([new_task ''a'' []] ! 0)) \<subseteq> set []"
    by (rule inst [THEN conjunct2, THEN mp]) simp
  then have "0 \<in> set (ready_tasks ([new_task ''a'' []][0 := ([new_task ''a'' []] ! 0)\<lparr> status := CANCELLED \<rparr>])
     [0] [])"
    by (simp add: new_task_def)
  with inst [THEN conjunct1] show ?thesis by (rule conjI)
qed

text \<open>
  Claim C9 as stated fails: a pending task marked cancelled is in the ready list and is
  admitted into the batch.
\<close>

theorem cancelled_task_admitted:
  "select_batch 5 (ready_tasks [(new_task ''a'' [])\<lparr> status := CANCELLED \<rparr>] [0] []) = [0]"
  by (simp add: ready_tasks_def select_batch_def py_slice_to_def new_task_def)



lemma str_nat_1: "str_nat (Suc 0) = ''1''"
  by code_simp


lemma newly_completed_concat:
  "concat (map (\<lambda>r. newly_completed (f r) (g r)) rs) = map g (filter (\<lambda>r. is_returned (f r)) rs)"
  by (induction rs) (auto simp: newly_completed_def is_returned_def split: dispatch_result.splits)

lemma status_of_cases:
  "(case res of Raised e \<Rightarrow> status_of res = FAILED | Returned v \<Rightarrow> status_of res = COMPLETED)"
  by (simp add: status_of_def split: dispatch_result.splits)



section \<open>The sandbox\<close>

lemma encode_strict_empty: "encode_strict (wrap_code []) = None"
  by (simp add: encode_strict_def wrap_code_def indent_code_def codepoints_def)

lemma encode_strict_surrogate:
  "encode_strict (wrap_code [0xDC80]) = Some (UnicodeEncodeError ''surrogates not allowed'')"
  by (simp add: encode_strict_def wrap_code_def indent_code_def codepoints_def)

lemma execute_with_limits_spawn_failure:
  "popen env = Some e \<Longrightarrow>
     execute_with_limits sb env p w =
       (\<lparr> success = False, stdout = [], stderr = exc_str e, return_code = - 1,
          execution_time = 0, memory_used = 0 \<rparr>, w)"
  by (simp add: execute_with_limits_def)

lemma execute_with_limits_timeout:
  "popen env = None \<Longrightarrow> communicate env = TimeoutExpired \<Longrightarrow>
     execute_with_limits sb env p w =
       (\<lparr> success = False, stdout = [],
          stderr = ''Execution timeout after '' @ str_int (timeout_seconds sb) @ ''s'',
          return_code = - 1, execution_time = of_int (timeout_seconds sb), memory_used = 0 \<rparr>,
        w\<lparr> files := child_files env (files w), child := Killed \<rparr>)"
  by (simp add: execute_with_limits_def)

lemma execute_written:
  "mktemp env = Inr p \<Longrightarrow> encode_strict (wrap_code code) = None \<Longrightarrow> write_failure env = None \<Longrightarrow>
     fst (execute sb env code w) =
       Inr (fst (execute_with_limits sb env p (w\<lparr> files := insert p (files w) \<rparr>)))"
  by (simp add: execute_def Let_def split: prod.splits)





text \<open>
  Claim C8 fails on the code: for a program text holding the lone surrogate \<open>U+DC80\<close>
  the write raises inside the \<open>with\<close> block, before the \<open>try\<close> whose \<open>finally\<close> removes
  the file; \<open>execute\<close> raises and the file created with \<open>delete=False\<close> is still on disk.
\<close>

theorem execute_leaves_artifact:
  "execute (PythonSandbox_init 300 512 600)
         \<lparr> mktemp = Inr ''/tmp/tmpa.py'', write_failure = None, popen = None,
           communicate = Exited [] [] 0 0, child_files = (\<lambda>fs. fs) \<rparr>
         [0xDC80] \<lparr> files = {}, child = NotSpawned \<rparr>
     = (Inl (UnicodeEncodeError ''surrogates not allowed''),
        \<lparr> files = {''/tmp/tmpa.py''}, child = NotSpawned \<rparr>)"
  by (simp add: execute_def encode_strict_surrogate Let_def)

text \<open>
  Once the file is written, it is gone when \<open>execute\<close> returns, whatever the child did.
\<close>

lemma execute_removes_artifact:
  assumes "mktemp env = Inr p" and "encode_strict (wrap_code code) = None"
    and "write_failure env = None"
  shows "p \<notin> files (snd (execute sb env code w))"
  using assms by (simp add: execute_def Let_def split: prod.splits)



end
